theory Spec2Isabelle
  imports Main "HOL-Library.Word"
begin

unbundle bit_operations_syntax

section \<open>Bytes and byte order\<close>

text \<open>
  A Go \<^verbatim>\<open>[]byte\<close> is a list of 8-bit words; a Go \<^verbatim>\<open>string\<close> is the list of its
  bytes, written here as an Isabelle \<open>string\<close> and converted with \<open>bytes_of\<close>
  (Go's \<^verbatim>\<open>[]byte(s)\<close>). \<open>be32\<close> is \<^verbatim>\<open>binary.BigEndian.PutUint32\<close>, \<open>uint32_be\<close> is
  \<^verbatim>\<open>binary.BigEndian.Uint32\<close> on the four bytes it reads.
\<close>

type_synonym byte = "8 word"
type_synonym bytes = "byte list"

definition bytes_of :: "string \<Rightarrow> bytes" where
  "bytes_of s = map of_char s"

definition be32 :: "32 word \<Rightarrow> bytes" where
  "be32 v = [ucast (drop_bit 24 v), ucast (drop_bit 16 v), ucast (drop_bit 8 v), ucast v]"

definition be64 :: "64 word \<Rightarrow> bytes" where
  "be64 v = [ucast (drop_bit 56 v), ucast (drop_bit 48 v), ucast (drop_bit 40 v),
             ucast (drop_bit 32 v), ucast (drop_bit 24 v), ucast (drop_bit 16 v),
             ucast (drop_bit 8 v), ucast v]"

definition uint32_be :: "byte \<Rightarrow> byte \<Rightarrow> byte \<Rightarrow> byte \<Rightarrow> 32 word" where
  "uint32_be b0 b1 b2 b3 =
     push_bit 24 (ucast b0) OR push_bit 16 (ucast b1) OR push_bit 8 (ucast b2) OR ucast b3"

text \<open>
  \<^verbatim>\<open>binary.BigEndian.Uint32(b)\<close> reads \<^verbatim>\<open>b[0]\<close> to \<^verbatim>\<open>b[3]\<close>; its one caller passes a slice
  of four bytes.
\<close>

definition uint32_be_bytes :: "bytes \<Rightarrow> 32 word" where
  "uint32_be_bytes b = uint32_be (b ! 0) (b ! 1) (b ! 2) (b ! 3)"

text \<open>
  \<^verbatim>\<open>%d\<close> of \<^verbatim>\<open>fmt.Sprintf\<close>: the decimal digits of an integer, after a minus sign when it
  is negative.
\<close>

function show_nat :: "nat \<Rightarrow> string" where
  "show_nat n =
     (if n < 10 then [char_of (48 + n)]
      else show_nat (n div 10) @ [char_of (48 + n mod 10)])"
  by pat_completeness auto
termination
  by (relation "measure id") auto

declare show_nat.simps [simp del]

definition show_int :: "int \<Rightarrow> string" where
  "show_int i = (if i < 0 then CHR ''-'' # show_nat (nat (- i)) else show_nat (nat i))"

fun be32_words :: "bytes \<Rightarrow> 32 word list" where
  "be32_words (b0 # b1 # b2 # b3 # rest) = uint32_be b0 b1 b2 b3 # be32_words rest"
| "be32_words _ = []"

section \<open>The hash functions of crypto/sha1 and crypto/sha256\<close>

text \<open>
  The Go standard library implements SHA-1 and SHA-256 of FIPS 180-4. Both pad the
  message with \<^verbatim>\<open>0x80\<close>, zero bytes and the 64-bit big-endian bit length to a multiple
  of 64 bytes, and fold a compression function over the 64-byte blocks.
\<close>

definition md_pad :: "bytes \<Rightarrow> bytes" where
  "md_pad m = m @ [0x80] @ replicate ((119 - length m mod 64) mod 64) 0
                @ be64 (of_nat (8 * length m))"

function md_blocks :: "bytes \<Rightarrow> bytes list" where
  "md_blocks m = (if length m < 64 then [] else take 64 m # md_blocks (drop 64 m))"
  by pat_completeness auto
termination
  by (relation "measure length") auto

declare md_blocks.simps [simp del]

definition sha256_K :: "32 word list" where
  "sha256_K =
    [0x428A2F98, 0x71374491, 0xB5C0FBCF, 0xE9B5DBA5, 0x3956C25B, 0x59F111F1,
     0x923F82A4, 0xAB1C5ED5, 0xD807AA98, 0x12835B01, 0x243185BE, 0x550C7DC3,
     0x72BE5D74, 0x80DEB1FE, 0x9BDC06A7, 0xC19BF174, 0xE49B69C1, 0xEFBE4786,
     0x0FC19DC6, 0x240CA1CC, 0x2DE92C6F, 0x4A7484AA, 0x5CB0A9DC, 0x76F988DA,
     0x983E5152, 0xA831C66D, 0xB00327C8, 0xBF597FC7, 0xC6E00BF3, 0xD5A79147,
     0x06CA6351, 0x14292967, 0x27B70A85, 0x2E1B2138, 0x4D2C6DFC, 0x53380D13,
     0x650A7354, 0x766A0ABB, 0x81C2C92E, 0x92722C85, 0xA2BFE8A1, 0xA81A664B,
     0xC24B8B70, 0xC76C51A3, 0xD192E819, 0xD6990624, 0xF40E3585, 0x106AA070,
     0x19A4C116, 0x1E376C08, 0x2748774C, 0x34B0BCB5, 0x391C0CB3, 0x4ED8AA4A,
     0x5B9CCA4F, 0x682E6FF3, 0x748F82EE, 0x78A5636F, 0x84C87814, 0x8CC70208,
     0x90BEFFFA, 0xA4506CEB, 0xBEF9A3F7, 0xC67178F2]"

type_synonym sha256_state =
  "32 word \<times> 32 word \<times> 32 word \<times> 32 word \<times> 32 word \<times> 32 word \<times> 32 word \<times> 32 word"

definition sha256_init :: sha256_state where
  "sha256_init = (0x6A09E667, 0xBB67AE85, 0x3C6EF372, 0xA54FF53A,
                  0x510E527F, 0x9B05688C, 0x1F83D9AB, 0x5BE0CD19)"

fun sha256_schedule :: "nat \<Rightarrow> 32 word list \<Rightarrow> 32 word list" where
  "sha256_schedule 0 w = w"
| "sha256_schedule (Suc n) w =
     (let t = length w;
          x = w ! (t - 15); y = w ! (t - 2);
          s0 = word_rotr 7 x XOR word_rotr 18 x XOR drop_bit 3 x;
          s1 = word_rotr 17 y XOR word_rotr 19 y XOR drop_bit 10 y
      in sha256_schedule n (w @ [w ! (t - 16) + s0 + w ! (t - 7) + s1]))"

fun sha256_round :: "sha256_state \<Rightarrow> 32 word \<times> 32 word \<Rightarrow> sha256_state" where
  "sha256_round (a, b, c, d, e, f, g, h) (k, w) =
     (let t1 = h + (word_rotr 6 e XOR word_rotr 11 e XOR word_rotr 25 e)
                 + ((e AND f) XOR (NOT e AND g)) + k + w;
          t2 = (word_rotr 2 a XOR word_rotr 13 a XOR word_rotr 22 a)
                 + ((a AND b) XOR (a AND c) XOR (b AND c))
      in (t1 + t2, a, b, c, d + t1, e, f, g))"

fun sha256_add :: "sha256_state \<Rightarrow> sha256_state \<Rightarrow> sha256_state" where
  "sha256_add (a, b, c, d, e, f, g, h) (a', b', c', d', e', f', g', h') =
     (a + a', b + b', c + c', d + d', e + e', f + f', g + g', h + h')"

definition sha256_block :: "sha256_state \<Rightarrow> bytes \<Rightarrow> sha256_state" where
  "sha256_block st blk =
     sha256_add st (foldl sha256_round st (zip sha256_K (sha256_schedule 48 (be32_words blk))))"

fun sha256_out :: "sha256_state \<Rightarrow> bytes" where
  "sha256_out (a, b, c, d, e, f, g, h) =
     be32 a @ be32 b @ be32 c @ be32 d @ be32 e @ be32 f @ be32 g @ be32 h"

definition sha256 :: "bytes \<Rightarrow> bytes" where
  "sha256 m = sha256_out (foldl sha256_block sha256_init (md_blocks (md_pad m)))"

type_synonym sha1_state = "32 word \<times> 32 word \<times> 32 word \<times> 32 word \<times> 32 word"

definition sha1_init :: sha1_state where
  "sha1_init = (0x67452301, 0xEFCDAB89, 0x98BADCFE, 0x10325476, 0xC3D2E1F0)"

fun sha1_schedule :: "nat \<Rightarrow> 32 word list \<Rightarrow> 32 word list" where
  "sha1_schedule 0 w = w"
| "sha1_schedule (Suc n) w =
     (let t = length w
      in sha1_schedule n
           (w @ [word_rotl 1 (w ! (t - 3) XOR w ! (t - 8) XOR w ! (t - 14) XOR w ! (t - 16))]))"

fun sha1_round :: "sha1_state \<Rightarrow> nat \<times> 32 word \<Rightarrow> sha1_state" where
  "sha1_round (a, b, c, d, e) (t, w) =
     (let f = (if t < 20 then (b AND c) OR (NOT b AND d)
               else if t < 40 then b XOR c XOR d
               else if t < 60 then (b AND c) OR (b AND d) OR (c AND d)
               else b XOR c XOR d);
          k = (if t < 20 then 0x5A827999
               else if t < 40 then 0x6ED9EBA1
               else if t < 60 then 0x8F1BBCDC
               else 0xCA62C1D6)
      in (word_rotl 5 a + f + e + w + k, a, word_rotl 30 b, c, d))"

fun sha1_add :: "sha1_state \<Rightarrow> sha1_state \<Rightarrow> sha1_state" where
  "sha1_add (a, b, c, d, e) (a', b', c', d', e') = (a + a', b + b', c + c', d + d', e + e')"

definition sha1_block :: "sha1_state \<Rightarrow> bytes \<Rightarrow> sha1_state" where
  "sha1_block st blk =
     sha1_add st (foldl sha1_round st (zip [0..<80] (sha1_schedule 64 (be32_words blk))))"

fun sha1_out :: "sha1_state \<Rightarrow> bytes" where
  "sha1_out (a, b, c, d, e) = be32 a @ be32 b @ be32 c @ be32 d @ be32 e"

definition sha1 :: "bytes \<Rightarrow> bytes" where
  "sha1 m = sha1_out (foldl sha1_block sha1_init (md_blocks (md_pad m)))"

section \<open>The block cipher of crypto/aes and the CBC mode of crypto/cipher\<close>

text \<open>
  AES as FIPS 197 defines it, on a state of 16 bytes in column order. \<open>aes_sbox_table\<close>
  and \<open>aes_inv_sbox_table\<close> are the substitution tables \<^verbatim>\<open>sbox0\<close> and \<^verbatim>\<open>sbox1\<close> of
  crypto/aes.
\<close>

definition xor_bytes :: "bytes \<Rightarrow> bytes \<Rightarrow> bytes" where
  "xor_bytes a b = map (\<lambda>(x, y). x XOR y) (zip a b)"

definition aes_sbox_table :: "byte list" where
  "aes_sbox_table = [
     0x63, 0x7C, 0x77, 0x7B, 0xF2, 0x6B, 0x6F, 0xC5, 0x30, 0x01, 0x67, 0x2B,
     0xFE, 0xD7, 0xAB, 0x76, 0xCA, 0x82, 0xC9, 0x7D, 0xFA, 0x59, 0x47, 0xF0,
     0xAD, 0xD4, 0xA2, 0xAF, 0x9C, 0xA4, 0x72, 0xC0, 0xB7, 0xFD, 0x93, 0x26,
     0x36, 0x3F, 0xF7, 0xCC, 0x34, 0xA5, 0xE5, 0xF1, 0x71, 0xD8, 0x31, 0x15,
     0x04, 0xC7, 0x23, 0xC3, 0x18, 0x96, 0x05, 0x9A, 0x07, 0x12, 0x80, 0xE2,
     0xEB, 0x27, 0xB2, 0x75, 0x09, 0x83, 0x2C, 0x1A, 0x1B, 0x6E, 0x5A, 0xA0,
     0x52, 0x3B, 0xD6, 0xB3, 0x29, 0xE3, 0x2F, 0x84, 0x53, 0xD1, 0x00, 0xED,
     0x20, 0xFC, 0xB1, 0x5B, 0x6A, 0xCB, 0xBE, 0x39, 0x4A, 0x4C, 0x58, 0xCF,
     0xD0, 0xEF, 0xAA, 0xFB, 0x43, 0x4D, 0x33, 0x85, 0x45, 0xF9, 0x02, 0x7F,
     0x50, 0x3C, 0x9F, 0xA8, 0x51, 0xA3, 0x40, 0x8F, 0x92, 0x9D, 0x38, 0xF5,
     0xBC, 0xB6, 0xDA, 0x21, 0x10, 0xFF, 0xF3, 0xD2, 0xCD, 0x0C, 0x13, 0xEC,
     0x5F, 0x97, 0x44, 0x17, 0xC4, 0xA7, 0x7E, 0x3D, 0x64, 0x5D, 0x19, 0x73,
     0x60, 0x81, 0x4F, 0xDC, 0x22, 0x2A, 0x90, 0x88, 0x46, 0xEE, 0xB8, 0x14,
     0xDE, 0x5E, 0x0B, 0xDB, 0xE0, 0x32, 0x3A, 0x0A, 0x49, 0x06, 0x24, 0x5C,
     0xC2, 0xD3, 0xAC, 0x62, 0x91, 0x95, 0xE4, 0x79, 0xE7, 0xC8, 0x37, 0x6D,
     0x8D, 0xD5, 0x4E, 0xA9, 0x6C, 0x56, 0xF4, 0xEA, 0x65, 0x7A, 0xAE, 0x08,
     0xBA, 0x78, 0x25, 0x2E, 0x1C, 0xA6, 0xB4, 0xC6, 0xE8, 0xDD, 0x74, 0x1F,
     0x4B, 0xBD, 0x8B, 0x8A, 0x70, 0x3E, 0xB5, 0x66, 0x48, 0x03, 0xF6, 0x0E,
     0x61, 0x35, 0x57, 0xB9, 0x86, 0xC1, 0x1D, 0x9E, 0xE1, 0xF8, 0x98, 0x11,
     0x69, 0xD9, 0x8E, 0x94, 0x9B, 0x1E, 0x87, 0xE9, 0xCE, 0x55, 0x28, 0xDF,
     0x8C, 0xA1, 0x89, 0x0D, 0xBF, 0xE6, 0x42, 0x68, 0x41, 0x99, 0x2D, 0x0F,
     0xB0, 0x54, 0xBB, 0x16]"

definition aes_inv_sbox_table :: "byte list" where
  "aes_inv_sbox_table = [
     0x52, 0x09, 0x6A, 0xD5, 0x30, 0x36, 0xA5, 0x38, 0xBF, 0x40, 0xA3, 0x9E,
     0x81, 0xF3, 0xD7, 0xFB, 0x7C, 0xE3, 0x39, 0x82, 0x9B, 0x2F, 0xFF, 0x87,
     0x34, 0x8E, 0x43, 0x44, 0xC4, 0xDE, 0xE9, 0xCB, 0x54, 0x7B, 0x94, 0x32,
     0xA6, 0xC2, 0x23, 0x3D, 0xEE, 0x4C, 0x95, 0x0B, 0x42, 0xFA, 0xC3, 0x4E,
     0x08, 0x2E, 0xA1, 0x66, 0x28, 0xD9, 0x24, 0xB2, 0x76, 0x5B, 0xA2, 0x49,
     0x6D, 0x8B, 0xD1, 0x25, 0x72, 0xF8, 0xF6, 0x64, 0x86, 0x68, 0x98, 0x16,
     0xD4, 0xA4, 0x5C, 0xCC, 0x5D, 0x65, 0xB6, 0x92, 0x6C, 0x70, 0x48, 0x50,
     0xFD, 0xED, 0xB9, 0xDA, 0x5E, 0x15, 0x46, 0x57, 0xA7, 0x8D, 0x9D, 0x84,
     0x90, 0xD8, 0xAB, 0x00, 0x8C, 0xBC, 0xD3, 0x0A, 0xF7, 0xE4, 0x58, 0x05,
     0xB8, 0xB3, 0x45, 0x06, 0xD0, 0x2C, 0x1E, 0x8F, 0xCA, 0x3F, 0x0F, 0x02,
     0xC1, 0xAF, 0xBD, 0x03, 0x01, 0x13, 0x8A, 0x6B, 0x3A, 0x91, 0x11, 0x41,
     0x4F, 0x67, 0xDC, 0xEA, 0x97, 0xF2, 0xCF, 0xCE, 0xF0, 0xB4, 0xE6, 0x73,
     0x96, 0xAC, 0x74, 0x22, 0xE7, 0xAD, 0x35, 0x85, 0xE2, 0xF9, 0x37, 0xE8,
     0x1C, 0x75, 0xDF, 0x6E, 0x47, 0xF1, 0x1A, 0x71, 0x1D, 0x29, 0xC5, 0x89,
     0x6F, 0xB7, 0x62, 0x0E, 0xAA, 0x18, 0xBE, 0x1B, 0xFC, 0x56, 0x3E, 0x4B,
     0xC6, 0xD2, 0x79, 0x20, 0x9A, 0xDB, 0xC0, 0xFE, 0x78, 0xCD, 0x5A, 0xF4,
     0x1F, 0xDD, 0xA8, 0x33, 0x88, 0x07, 0xC7, 0x31, 0xB1, 0x12, 0x10, 0x59,
     0x27, 0x80, 0xEC, 0x5F, 0x60, 0x51, 0x7F, 0xA9, 0x19, 0xB5, 0x4A, 0x0D,
     0x2D, 0xE5, 0x7A, 0x9F, 0x93, 0xC9, 0x9C, 0xEF, 0xA0, 0xE0, 0x3B, 0x4D,
     0xAE, 0x2A, 0xF5, 0xB0, 0xC8, 0xEB, 0xBB, 0x3C, 0x83, 0x53, 0x99, 0x61,
     0x17, 0x2B, 0x04, 0x7E, 0xBA, 0x77, 0xD6, 0x26, 0xE1, 0x69, 0x14, 0x63,
     0x55, 0x21, 0x0C, 0x7D]"

definition aes_sbox :: "byte \<Rightarrow> byte" where
  "aes_sbox b = aes_sbox_table ! unat b"

definition aes_inv_sbox :: "byte \<Rightarrow> byte" where
  "aes_inv_sbox b = aes_inv_sbox_table ! unat b"

definition xtime :: "byte \<Rightarrow> byte" where
  "xtime b = push_bit 1 b XOR (if bit b 7 then 0x1B else 0)"

definition sub_bytes :: "bytes \<Rightarrow> bytes" where
  "sub_bytes s = map aes_sbox s"

definition inv_sub_bytes :: "bytes \<Rightarrow> bytes" where
  "inv_sub_bytes s = map aes_inv_sbox s"

definition shift_rows :: "bytes \<Rightarrow> bytes" where
  "shift_rows s = map (\<lambda>i. s ! i) [0, 5, 10, 15, 4, 9, 14, 3, 8, 13, 2, 7, 12, 1, 6, 11]"

definition inv_shift_rows :: "bytes \<Rightarrow> bytes" where
  "inv_shift_rows s = map (\<lambda>i. s ! i) [0, 13, 10, 7, 4, 1, 14, 11, 8, 5, 2, 15, 12, 9, 6, 3]"

definition mix_column :: "byte \<Rightarrow> byte \<Rightarrow> byte \<Rightarrow> byte \<Rightarrow> bytes" where
  "mix_column a0 a1 a2 a3 =
     [xtime a0 XOR (xtime a1 XOR a1) XOR a2 XOR a3,
      a0 XOR xtime a1 XOR (xtime a2 XOR a2) XOR a3,
      a0 XOR a1 XOR xtime a2 XOR (xtime a3 XOR a3),
      (xtime a0 XOR a0) XOR a1 XOR a2 XOR xtime a3]"

fun mix_columns :: "bytes \<Rightarrow> bytes" where
  "mix_columns (a0 # a1 # a2 # a3 # rest) = mix_column a0 a1 a2 a3 @ mix_columns rest"
| "mix_columns _ = []"

definition gmul9 :: "byte \<Rightarrow> byte" where
  "gmul9 a = xtime (xtime (xtime a)) XOR a"

definition gmul11 :: "byte \<Rightarrow> byte" where
  "gmul11 a = xtime (xtime (xtime a)) XOR xtime a XOR a"

definition gmul13 :: "byte \<Rightarrow> byte" where
  "gmul13 a = xtime (xtime (xtime a)) XOR xtime (xtime a) XOR a"

definition gmul14 :: "byte \<Rightarrow> byte" where
  "gmul14 a = xtime (xtime (xtime a)) XOR xtime (xtime a) XOR xtime a"

definition inv_mix_column :: "byte \<Rightarrow> byte \<Rightarrow> byte \<Rightarrow> byte \<Rightarrow> bytes" where
  "inv_mix_column a0 a1 a2 a3 =
     [gmul14 a0 XOR gmul11 a1 XOR gmul13 a2 XOR gmul9 a3,
      gmul9 a0 XOR gmul14 a1 XOR gmul11 a2 XOR gmul13 a3,
      gmul13 a0 XOR gmul9 a1 XOR gmul14 a2 XOR gmul11 a3,
      gmul11 a0 XOR gmul13 a1 XOR gmul9 a2 XOR gmul14 a3]"

fun inv_mix_columns :: "bytes \<Rightarrow> bytes" where
  "inv_mix_columns (a0 # a1 # a2 # a3 # rest) = inv_mix_column a0 a1 a2 a3 @ inv_mix_columns rest"
| "inv_mix_columns _ = []"

fun aes_rcon :: "nat \<Rightarrow> byte" where
  "aes_rcon 0 = 0"
| "aes_rcon (Suc 0) = 1"
| "aes_rcon (Suc n) = xtime (aes_rcon n)"

definition rot_word :: "bytes \<Rightarrow> bytes" where
  "rot_word w = drop 1 w @ take 1 w"

fun key_words :: "bytes \<Rightarrow> bytes list" where
  "key_words (b0 # b1 # b2 # b3 # rest) = [b0, b1, b2, b3] # key_words rest"
| "key_words _ = []"

definition expand_word :: "nat \<Rightarrow> bytes list \<Rightarrow> bytes" where
  "expand_word nk w =
     (let i = length w;
          temp = w ! (i - 1);
          temp' = (if i mod nk = 0
                   then xor_bytes (sub_bytes (rot_word temp)) [aes_rcon (i div nk), 0, 0, 0]
                   else if nk > 6 \<and> i mod nk = 4 then sub_bytes temp
                   else temp)
      in xor_bytes (w ! (i - nk)) temp')"

fun expand_loop :: "nat \<Rightarrow> nat \<Rightarrow> bytes list \<Rightarrow> bytes list" where
  "expand_loop 0 nk w = w"
| "expand_loop (Suc n) nk w = expand_loop n nk (w @ [expand_word nk w])"

fun round_keys :: "bytes list \<Rightarrow> bytes list" where
  "round_keys (w0 # w1 # w2 # w3 # rest) = (w0 @ w1 @ w2 @ w3) # round_keys rest"
| "round_keys _ = []"

definition aes_key_expansion :: "bytes \<Rightarrow> bytes list" where
  "aes_key_expansion key =
     (let nk = length key div 4
      in round_keys (expand_loop (4 * (nk + 7) - nk) nk (key_words key)))"

fun enc_rounds :: "bytes list \<Rightarrow> bytes \<Rightarrow> bytes" where
  "enc_rounds [] s = s"
| "enc_rounds [k] s = xor_bytes (shift_rows (sub_bytes s)) k"
| "enc_rounds (k # ks) s = enc_rounds ks (xor_bytes (mix_columns (shift_rows (sub_bytes s))) k)"

fun dec_rounds :: "bytes list \<Rightarrow> bytes \<Rightarrow> bytes" where
  "dec_rounds [] s = s"
| "dec_rounds [k] s = inv_sub_bytes (inv_shift_rows (xor_bytes s k))"
| "dec_rounds (k # ks) s =
     inv_sub_bytes (inv_shift_rows (inv_mix_columns (xor_bytes (dec_rounds ks s) k)))"

definition aes_encrypt_block :: "bytes list \<Rightarrow> bytes \<Rightarrow> bytes" where
  "aes_encrypt_block rks blk = enc_rounds (tl rks) (xor_bytes blk (hd rks))"

definition aes_decrypt_block :: "bytes list \<Rightarrow> bytes \<Rightarrow> bytes" where
  "aes_decrypt_block rks blk = xor_bytes (dec_rounds (tl rks) blk) (hd rks)"

text \<open>
  \<^verbatim>\<open>aes.NewCipher(key)\<close> returns the \<^verbatim>\<open>KeySizeError\<close> (the length of the key) unless the
  key has 16, 24 or 32 bytes; the cipher it returns is represented by its round keys.
\<close>

definition aes_NewCipher :: "bytes \<Rightarrow> nat + bytes list" where
  "aes_NewCipher k =
     (if length k = 16 \<or> length k = 24 \<or> length k = 32
      then Inr (aes_key_expansion k) else Inl (length k))"

text \<open>
  The chaining of \<^verbatim>\<open>cipher.NewCBCEncrypter\<close> and \<^verbatim>\<open>cipher.NewCBCDecrypter\<close> over the
  16-byte blocks of the input.
\<close>

function cbc_encrypt :: "bytes list \<Rightarrow> bytes \<Rightarrow> bytes \<Rightarrow> bytes" where
  "cbc_encrypt rks iv src =
     (if length src < 16 then []
      else (let c = aes_encrypt_block rks (xor_bytes (take 16 src) iv)
            in c @ cbc_encrypt rks c (drop 16 src)))"
  by pat_completeness auto
termination
  by (relation "measure (\<lambda>(rks, iv, src). length src)") auto

function cbc_decrypt :: "bytes list \<Rightarrow> bytes \<Rightarrow> bytes \<Rightarrow> bytes" where
  "cbc_decrypt rks iv src =
     (if length src < 16 then []
      else (let c = take 16 src
            in xor_bytes (aes_decrypt_block rks c) iv @ cbc_decrypt rks c (drop 16 src)))"
  by pat_completeness auto
termination
  by (relation "measure (\<lambda>(rks, iv, src). length src)") auto

declare cbc_encrypt.simps [simp del]
declare cbc_decrypt.simps [simp del]

text \<open>
  \<^verbatim>\<open>CryptBlocks(dst, src)\<close> panics with \<^verbatim>\<open>"crypto/cipher: input not full blocks"\<close> when
  the length of \<^verbatim>\<open>src\<close> is not a multiple of the block size: \<open>None\<close> is that panic. Both
  callers pass a \<^verbatim>\<open>dst\<close> as long as \<^verbatim>\<open>src\<close> and an \<^verbatim>\<open>iv\<close> of 16 bytes, so the other
  panics of the two functions cannot occur.
\<close>

definition CryptBlocks_encrypt :: "bytes list \<Rightarrow> bytes \<Rightarrow> bytes \<Rightarrow> bytes option" where
  "CryptBlocks_encrypt rks iv src =
     (if length src mod 16 \<noteq> 0 then None else Some (cbc_encrypt rks iv src))"

definition CryptBlocks_decrypt :: "bytes list \<Rightarrow> bytes \<Rightarrow> bytes \<Rightarrow> bytes option" where
  "CryptBlocks_decrypt rks iv src =
     (if length src mod 16 \<noteq> 0 then None else Some (cbc_decrypt rks iv src))"

section \<open>klap.go\<close>

subsection \<open>PKCS7 padding\<close>

text \<open>
  \<^verbatim>\<open>pkcs7Pad(data, blockSize)\<close>: \<^verbatim>\<open>padding := blockSize - len(data)%blockSize\<close>, then
  \<^verbatim>\<open>padding\<close> copies of \<^verbatim>\<open>byte(padding)\<close> are appended.
\<close>

definition pkcs7Pad :: "bytes \<Rightarrow> nat \<Rightarrow> bytes" where
  "pkcs7Pad data blockSize =
     (let padding = blockSize - length data mod blockSize
      in data @ replicate padding (of_nat padding))"

text \<open>
  The two error values of \<^verbatim>\<open>pkcs7Unpad\<close>: \<^verbatim>\<open>"empty data"\<close> and \<^verbatim>\<open>"invalid padding"\<close>.
\<close>

datatype unpad_error = EmptyData | InvalidPadding

text \<open>
  The loop \<^verbatim>\<open>for i := 0; i < padding; i++ { if data[length-1-i] != byte(padding) { return error } }\<close>:
  \<open>True\<close> when it runs to its end, \<open>False\<close> when it returns the error. Every index it
  reads is in range, since the caller has checked \<^verbatim>\<open>padding <= length\<close>.
\<close>

function unpad_loop :: "bytes \<Rightarrow> nat \<Rightarrow> nat \<Rightarrow> nat \<Rightarrow> bool" where
  "unpad_loop data len padding i =
     (if i < padding
      then (if data ! (len - 1 - i) \<noteq> of_nat padding then False
            else unpad_loop data len padding (i + 1))
      else True)"
  by pat_completeness auto
termination
  by (relation "measure (\<lambda>(data, len, padding, i). padding - i)") auto

declare unpad_loop.simps [simp del]

definition pkcs7Unpad :: "bytes \<Rightarrow> unpad_error + bytes" where
  "pkcs7Unpad data =
     (let len = length data in
      if len = 0 then Inl EmptyData
      else
        let padding = unat (data ! (len - 1)) in
        if padding > len \<or> padding = 0 then Inl InvalidPadding
        else if \<not> unpad_loop data len padding 0 then Inl InvalidPadding
        else Inr (take (len - padding) data))"

subsection \<open>The session\<close>

text \<open>
  \<^verbatim>\<open>klapSession\<close>. The field \<^verbatim>\<open>seq\<close> is an \<^verbatim>\<open>int32\<close>: a 32-bit word, read as a signed
  number by \<open>sint\<close>, and \<^verbatim>\<open>s.seq++\<close> wraps around. The \<^verbatim>\<open>httpClient\<close> (with its cookie
  jar) is not a field of the model: the functions that use it take the device's answer
  to a POST as a parameter instead.
\<close>

record klapSession =
  localSeed :: bytes
  remoteSeed :: bytes
  authHash :: bytes
  key :: bytes
  ivSeq :: bytes
  sig :: bytes
  seq :: "32 word"
  baseURL :: string
  host :: string

text \<open>
  What \<^verbatim>\<open>httpClient.Post\<close> and the following \<^verbatim>\<open>io.ReadAll(resp.Body)\<close> give: an error of
  \<^verbatim>\<open>Post\<close>, or a response with its status code and its body (\<open>None\<close> when reading the
  body fails).
\<close>

datatype http_result = PostError | Response int "bytes option"

type_synonym transport = "string \<Rightarrow> bytes \<Rightarrow> http_result"

text \<open>
  The errors that the functions of klap.go and client.go build with \<^verbatim>\<open>fmt.Errorf\<close>, one
  constructor for each message; a constructor with a \<open>klap_error\<close> argument wraps the
  error it is given (\<^verbatim>\<open>%w\<close>).
\<close>

datatype klap_error =
    PostRequestFailed
  | Handshake1Status int
  | Handshake2Status int
  | ReadBodyFailed
  | UnexpectedHandshake1Length nat
  | ServerHashVerificationFailed
  | Handshake1Failed klap_error
  | Handshake2Failed klap_error
  | FailedToCreateAESCipher nat
  | PayloadTooShort
  | SignatureVerificationFailed
  | FailedToUnpad unpad_error
  | EncryptionFailed klap_error
  | DecryptionFailed klap_error
  | RequestStatus int
  | FailedToGenerateLocalSeed
  | FailedToMarshalRequest
  | RequestFailed klap_error
  | FailedToUnmarshalResponse
  | DeviceReturnedErrorCode int

text \<open>
  A call fails with an error it returns, or with a panic of the Go runtime
  (\<^verbatim>\<open>"crypto/cipher: input not full blocks"\<close> is the only one these functions can reach).
  A panic is not an error value: no caller in the repository recovers from it, and no
  \<^verbatim>\<open>fmt.Errorf\<close> wraps it.
\<close>

datatype failure = Error klap_error | PanicInputNotFullBlocks

fun wrap :: "(klap_error \<Rightarrow> klap_error) \<Rightarrow> failure \<Rightarrow> failure" where
  "wrap f (Error e) = Error (f e)"
| "wrap f PanicInputNotFullBlocks = PanicInputNotFullBlocks"

text \<open>\<^verbatim>\<open>generateAuthHash\<close>: \<^verbatim>\<open>sha256.Sum256(sha1.Sum(username) ++ sha1.Sum(password))\<close>.\<close>

definition generateAuthHash :: "string \<Rightarrow> string \<Rightarrow> bytes" where
  "generateAuthHash username password =
     (let userHash = sha1 (bytes_of username);
          passHash = sha1 (bytes_of password);
          combined = [] @ userHash @ passHash
      in sha256 combined)"

definition calculateServerHash :: "klapSession \<Rightarrow> bytes" where
  "calculateServerHash s = sha256 (localSeed s @ remoteSeed s @ authHash s)"

definition calculateClientHash :: "klapSession \<Rightarrow> bytes" where
  "calculateClientHash s = sha256 (remoteSeed s @ localSeed s @ authHash s)"

text \<open>\<^verbatim>\<open>concat\<close> and \<^verbatim>\<open>sha256Hash\<close> take any number of byte slices.\<close>

definition concat_bytes :: "bytes list \<Rightarrow> bytes" where
  "concat_bytes slices = foldl (\<lambda>result s. result @ s) [] slices"

definition sha256Hash :: "bytes list \<Rightarrow> bytes" where
  "sha256Hash parts = sha256 (foldl (\<lambda>h p. h @ p) [] parts)"

text \<open>
  \<^verbatim>\<open>deriveKeys\<close>. The slices \<^verbatim>\<open>keyData[:16]\<close>, \<^verbatim>\<open>ivData[:12]\<close>, \<^verbatim>\<open>ivData[28:32]\<close> and
  \<^verbatim>\<open>sigData[:28]\<close> are in range, a SHA-256 digest having 32 bytes (\<open>length_sha256\<close>
  below). \<^verbatim>\<open>int32(binary.BigEndian.Uint32(...))\<close> keeps the 32 bits.
\<close>

definition klapIVSize :: nat where
  "klapIVSize = 12"

definition deriveKeys :: "klapSession \<Rightarrow> klapSession" where
  "deriveKeys s =
     (let localHash = concat_bytes [localSeed s, remoteSeed s, authHash s];
          keyData = sha256Hash [bytes_of ''lsk'', localHash];
          ivData = sha256Hash [bytes_of ''iv'', localHash];
          sigData = sha256Hash [bytes_of ''ldk'', localHash]
      in s\<lparr>key := take 16 keyData,
            ivSeq := take klapIVSize ivData,
            seq := uint32_be_bytes (take 4 (drop 28 ivData)),
            sig := take 28 sigData\<rparr>)"

text \<open>
  \<^verbatim>\<open>newKlapSession\<close>. \<open>rnd\<close> is what \<^verbatim>\<open>rand.Read\<close> gives for the 16 bytes of the local
  seed (\<open>None\<close> when it fails). The fields that the constructor does not set have Go's
  zero values.
\<close>

definition klapSeedSize :: nat where
  "klapSeedSize = 16"

definition newKlapSession :: "string \<Rightarrow> string \<Rightarrow> string \<Rightarrow> bytes option \<Rightarrow> klap_error + klapSession" where
  "newKlapSession ip username password rnd =
     (case rnd of
        None \<Rightarrow> Inl FailedToGenerateLocalSeed
      | Some localSeed' \<Rightarrow>
          Inr \<lparr>localSeed = localSeed', remoteSeed = [],
               authHash = generateAuthHash username password,
               key = [], ivSeq = [], sig = [], seq = 0,
               baseURL = ''http://'' @ ip @ ''/app'', host = ip\<rparr>)"

text \<open>
  The 16-byte IV that \<^verbatim>\<open>encrypt\<close> and \<^verbatim>\<open>decrypt\<close> both build:
  \<^verbatim>\<open>iv := make([]byte, 16); copy(iv, s.ivSeq); binary.BigEndian.PutUint32(iv[12:], uint32(seq))\<close>.
  \<^verbatim>\<open>copy\<close> copies as many bytes as fit, the rest stays zero, and the last four bytes are
  overwritten by the sequence number.
\<close>

definition klap_iv :: "bytes \<Rightarrow> 32 word \<Rightarrow> bytes" where
  "klap_iv ivs sq = take 12 (take 16 ivs @ replicate (16 - length ivs) 0) @ be32 sq"

text \<open>
  \<^verbatim>\<open>encrypt\<close> returns the payload and the sequence number it used, or fails; the session
  is returned with its incremented \<^verbatim>\<open>seq\<close> in either case, since \<^verbatim>\<open>s.seq++\<close> is the first
  statement.
\<close>

definition encrypt :: "klapSession \<Rightarrow> bytes \<Rightarrow> (failure + bytes \<times> 32 word) \<times> klapSession" where
  "encrypt s plaintext =
     (let s' = s\<lparr>seq := seq s + 1\<rparr>;
          sq = seq s';
          iv = klap_iv (ivSeq s') sq;
          padded = pkcs7Pad plaintext 16
      in case aes_NewCipher (key s') of
           Inl n \<Rightarrow> (Inl (Error (FailedToCreateAESCipher n)), s')
         | Inr block \<Rightarrow>
             (case CryptBlocks_encrypt block iv padded of
                None \<Rightarrow> (Inl PanicInputNotFullBlocks, s')
              | Some ciphertext \<Rightarrow>
                  (let seqBytes = be32 sq;
                       signature = sha256 (sig s' @ seqBytes @ ciphertext);
                       result = [] @ signature @ ciphertext
                   in (Inr (result, sq), s'))))"

definition decrypt :: "klapSession \<Rightarrow> bytes \<Rightarrow> 32 word \<Rightarrow> failure + bytes" where
  "decrypt s payload sq =
     (if length payload < 32 then Inl (Error PayloadTooShort)
      else
        let signature = take 32 payload;
            ciphertext = drop 32 payload;
            seqBytes = be32 sq;
            expectedSig = sha256 (sig s @ seqBytes @ ciphertext)
        in if signature \<noteq> expectedSig then Inl (Error SignatureVerificationFailed)
           else
             let iv = klap_iv (ivSeq s) sq
             in case aes_NewCipher (key s) of
                  Inl n \<Rightarrow> Inl (Error (FailedToCreateAESCipher n))
                | Inr block \<Rightarrow>
                    (case CryptBlocks_decrypt block iv ciphertext of
                       None \<Rightarrow> Inl PanicInputNotFullBlocks
                     | Some plaintext \<Rightarrow>
                         (case pkcs7Unpad plaintext of
                            Inl e \<Rightarrow> Inl (Error (FailedToUnpad e))
                          | Inr unpadded \<Rightarrow> Inr unpadded)))"

text \<open>
  \<^verbatim>\<open>handshake1\<close> returns its error (\<open>None\<close> for \<^verbatim>\<open>nil\<close>) and the session, whose
  \<^verbatim>\<open>remoteSeed\<close> it sets before it verifies the hash.
\<close>

definition handshake1 :: "transport \<Rightarrow> klapSession \<Rightarrow> klap_error option \<times> klapSession" where
  "handshake1 post s =
     (let reqURL = baseURL s @ ''/handshake1''
      in case post reqURL (localSeed s) of
           PostError \<Rightarrow> (Some PostRequestFailed, s)
         | Response status body \<Rightarrow>
             if status \<noteq> 200 then (Some (Handshake1Status status), s)
             else
               (case body of
                  None \<Rightarrow> (Some ReadBodyFailed, s)
                | Some body \<Rightarrow>
                    if length body \<noteq> 48
                    then (Some (UnexpectedHandshake1Length (length body)), s)
                    else
                      (let s' = s\<lparr>remoteSeed := take 16 body\<rparr>;
                           serverHash = take (48 - 16) (drop 16 body);
                           expectedHash = calculateServerHash s'
                       in if serverHash \<noteq> expectedHash
                          then (Some ServerHashVerificationFailed, s')
                          else (None, s'))))"

definition handshake2 :: "transport \<Rightarrow> klapSession \<Rightarrow> klap_error option" where
  "handshake2 post s =
     (let reqURL = baseURL s @ ''/handshake2'';
          clientHash = calculateClientHash s
      in case post reqURL clientHash of
           PostError \<Rightarrow> Some PostRequestFailed
         | Response status body \<Rightarrow>
             if status \<noteq> 200 then Some (Handshake2Status status) else None)"

definition handshake :: "transport \<Rightarrow> klapSession \<Rightarrow> klap_error option \<times> klapSession" where
  "handshake post s =
     (case handshake1 post s of
        (Some e, s1) \<Rightarrow> (Some (Handshake1Failed e), s1)
      | (None, s1) \<Rightarrow>
          (case handshake2 post s1 of
             Some e \<Rightarrow> (Some (Handshake2Failed e), s1)
           | None \<Rightarrow> (None, deriveKeys s1)))"

text \<open>
  \<^verbatim>\<open>request\<close>. The URL is \<^verbatim>\<open>fmt.Sprintf("%s/request?seq=%d", s.baseURL, seq)\<close> with the
  \<^verbatim>\<open>int32\<close> that \<^verbatim>\<open>encrypt\<close> returned.
\<close>

definition request :: "transport \<Rightarrow> klapSession \<Rightarrow> bytes \<Rightarrow> (failure + bytes) \<times> klapSession" where
  "request post s payload =
     (case encrypt s payload of
        (Inl f, s') \<Rightarrow> (Inl (wrap EncryptionFailed f), s')
      | (Inr (encrypted, sq), s') \<Rightarrow>
          (let reqURL = baseURL s' @ ''/request?seq='' @ show_int (sint sq)
           in case post reqURL encrypted of
                PostError \<Rightarrow> (Inl (Error PostRequestFailed), s')
              | Response status body \<Rightarrow>
                  if status \<noteq> 200 then (Inl (Error (RequestStatus status)), s')
                  else
                    (case body of
                       None \<Rightarrow> (Inl (Error ReadBodyFailed), s')
                     | Some body \<Rightarrow>
                         (case decrypt s' body sq of
                            Inl f \<Rightarrow> (Inl (wrap DecryptionFailed f), s')
                          | Inr plaintext \<Rightarrow> (Inr plaintext, s')))))"

section \<open>Lengths of the encodings and digests\<close>

lemma length_be32 [simp]: "length (be32 v) = 4"
  by (simp add: be32_def)

lemma length_sha256_out: "length (sha256_out st) = 32"
  by (induction st rule: sha256_out.induct) simp

lemma length_sha256 [simp]: "length (sha256 m) = 32"
  by (simp add: sha256_def length_sha256_out)

lemma length_sha1_out: "length (sha1_out st) = 20"
  by (induction st rule: sha1_out.induct) simp

lemma length_sha1 [simp]: "length (sha1 m) = 20"
  by (simp add: sha1_def length_sha1_out)

section \<open>AES decryption inverts AES encryption\<close>

lemma sbox_all: "list_all (\<lambda>n. aes_inv_sbox (aes_sbox (of_nat n)) = of_nat n) [0..<256]"
  by code_simp

lemma aes_inv_sbox_sbox: "aes_inv_sbox (aes_sbox b) = b"
proof -
  have "unat b < 2 ^ LENGTH(8)" by (rule unsigned_less)
  then have "unat b \<in> set [0..<256]" by simp
  with sbox_all have "aes_inv_sbox (aes_sbox (of_nat (unat b))) = of_nat (unat b)"
    unfolding list_all_iff by blast
  then show ?thesis by simp
qed

lemma inv_sub_bytes_sub_bytes: "inv_sub_bytes (sub_bytes s) = s"
  by (simp add: inv_sub_bytes_def sub_bytes_def aes_inv_sbox_sbox map_idI)

lemma length_sub_bytes: "length (sub_bytes s) = length s"
  by (simp add: sub_bytes_def)

lemma length_xor_bytes: "length (xor_bytes a b) = min (length a) (length b)"
  by (simp add: xor_bytes_def)

lemma xor_bytes_cancel: "length s \<le> length k \<Longrightarrow> xor_bytes (xor_bytes s k) k = s"
proof (induction s arbitrary: k)
  case Nil
  then show ?case by (simp add: xor_bytes_def)
next
  case (Cons a s)
  then obtain b k' where k: "k = b # k'" by (cases k) auto
  with Cons have "xor_bytes (xor_bytes s k') k' = s" by simp
  then show ?case using k by (simp add: xor_bytes_def xor.assoc)
qed

lemma list16:
  assumes "length (s :: 'a list) = 16"
  obtains a0 a1 a2 a3 a4 a5 a6 a7 a8 a9 a10 a11 a12 a13 a14 a15
  where "s = [a0, a1, a2, a3, a4, a5, a6, a7, a8, a9, a10, a11, a12, a13, a14, a15]"
  using assms by (auto simp: numeral_eq_Suc length_Suc_conv)

lemma length_shift_rows: "length (shift_rows s) = 16"
  by (simp add: shift_rows_def)

lemma inv_shift_rows_shift_rows: "length s = 16 \<Longrightarrow> inv_shift_rows (shift_rows s) = s"
  by (erule list16) (simp add: inv_shift_rows_def shift_rows_def)

lemma xtime_xor: "xtime (a XOR b) = xtime a XOR xtime b"
  unfolding xtime_def push_bit_xor bit_xor_iff
  by (cases "bit a 7"; cases "bit b 7") (simp_all add: ac_simps bit.xor_left_self)

lemmas xor_norm = xtime_xor xor.assoc xor.commute xor.left_commute bit.xor_left_self xor_self_eq

lemma inv_mix_columns_step:
  "inv_mix_columns (mix_column a0 a1 a2 a3 @ rest) = a0 # a1 # a2 # a3 # inv_mix_columns rest"
  unfolding mix_column_def
  by (simp add: inv_mix_column_def gmul9_def gmul11_def gmul13_def gmul14_def xor_norm)

lemma length_mix_column: "length (mix_column a0 a1 a2 a3) = 4"
  by (simp add: mix_column_def)

lemma length_mix_columns: "length s mod 4 = 0 \<Longrightarrow> length (mix_columns s) = length s"
proof (induction s rule: mix_columns.induct)
  case (1 a0 a1 a2 a3 rest)
  then show ?case by (simp add: length_mix_column)
qed (simp_all)

lemma inv_mix_columns_mix_columns:
  "length s mod 4 = 0 \<Longrightarrow> inv_mix_columns (mix_columns s) = s"
proof (induction s rule: mix_columns.induct)
  case (1 a0 a1 a2 a3 rest)
  then show ?case by (simp add: inv_mix_columns_step)
qed (simp_all)

lemma length_enc_round:
  assumes "length s = 16" "length k = 16"
  shows "length (xor_bytes (mix_columns (shift_rows (sub_bytes s))) k) = 16"
    and "length (xor_bytes (shift_rows (sub_bytes s)) k) = 16"
  using assms by (simp_all add: length_xor_bytes length_mix_columns length_shift_rows)

lemma dec_enc_round:
  assumes "length s = 16" "length k = 16"
  shows "inv_sub_bytes (inv_shift_rows (inv_mix_columns
           (xor_bytes (xor_bytes (mix_columns (shift_rows (sub_bytes s))) k) k))) = s"
    and "inv_sub_bytes (inv_shift_rows (xor_bytes (xor_bytes (shift_rows (sub_bytes s)) k) k)) = s"
  using assms
  by (simp_all add: xor_bytes_cancel length_mix_columns length_shift_rows
        inv_mix_columns_mix_columns inv_shift_rows_shift_rows length_sub_bytes
        inv_sub_bytes_sub_bytes)

lemma length_enc_rounds:
  "length s = 16 \<Longrightarrow> \<forall>k \<in> set ks. length k = 16 \<Longrightarrow> length (enc_rounds ks s) = 16"
proof (induction ks s rule: enc_rounds.induct)
  case (1 s)
  then show ?case by simp
next
  case (2 k s)
  then show ?case by (simp add: length_enc_round)
next
  case (3 k v va s)
  then show ?case by (simp add: length_enc_round)
qed

lemma dec_rounds_enc_rounds:
  "length s = 16 \<Longrightarrow> \<forall>k \<in> set ks. length k = 16 \<Longrightarrow> dec_rounds ks (enc_rounds ks s) = s"
proof (induction ks s rule: enc_rounds.induct)
  case (1 s)
  then show ?case by simp
next
  case (2 k s)
  then show ?case by (simp add: dec_enc_round)
next
  case (3 k v va s)
  then show ?case by (simp add: dec_enc_round length_enc_round)
qed

lemma length_aes_encrypt_block:
  assumes "rks \<noteq> []" "\<forall>k \<in> set rks. length k = 16" "length blk = 16"
  shows "length (aes_encrypt_block rks blk) = 16"
proof -
  obtain k ks where rks: "rks = k # ks" using assms(1) by (cases rks) auto
  show ?thesis
    using assms(2,3) unfolding aes_encrypt_block_def rks
    by (simp add: length_enc_rounds length_xor_bytes)
qed

lemma aes_decrypt_encrypt_block:
  assumes "rks \<noteq> []" "\<forall>k \<in> set rks. length k = 16" "length blk = 16"
  shows "aes_decrypt_block rks (aes_encrypt_block rks blk) = blk"
proof -
  obtain k ks where rks: "rks = k # ks" using assms(1) by (cases rks) auto
  show ?thesis
    using assms(2,3) unfolding aes_encrypt_block_def aes_decrypt_block_def rks
    by (simp add: dec_rounds_enc_rounds length_xor_bytes xor_bytes_cancel)
qed

lemma key_words_props:
  "length ky mod 4 = 0 \<Longrightarrow>
     length (key_words ky) = length ky div 4 \<and> (\<forall>w \<in> set (key_words ky). length w = 4)"
proof (induction ky rule: key_words.induct)
  case (1 b0 b1 b2 b3 rest)
  have l: "length (b0 # b1 # b2 # b3 # rest) = length rest + 4" by simp
  from "1.prems" have m: "length rest mod 4 = 0" unfolding l by simp
  have d: "(length rest + 4) div 4 = length rest div 4 + 1" by simp
  from "1.IH" [OF m] show ?case unfolding l d by simp
qed simp_all

lemma length_expand_word:
  assumes "0 < nk" "nk \<le> length w" "\<forall>x \<in> set w. length x = 4"
  shows "length (expand_word nk w) = 4"
proof -
  have t: "length (w ! (length w - 1)) = 4" "length (w ! (length w - nk)) = 4"
    using assms by simp_all
  show ?thesis
    unfolding expand_word_def Let_def
    using t by (simp add: length_xor_bytes length_sub_bytes rot_word_def)
qed

lemma expand_loop_props:
  "0 < nk \<Longrightarrow> nk \<le> length w \<Longrightarrow> \<forall>x \<in> set w. length x = 4 \<Longrightarrow>
     length (expand_loop n nk w) = length w + n \<and> (\<forall>x \<in> set (expand_loop n nk w). length x = 4)"
proof (induction n arbitrary: w)
  case 0
  then show ?case by simp
next
  case (Suc n)
  have n: "length (expand_word nk w) = 4"
    using Suc.prems by (rule length_expand_word)
  have "length (expand_loop n nk (w @ [expand_word nk w])) = length (w @ [expand_word nk w]) + n
      \<and> (\<forall>x \<in> set (expand_loop n nk (w @ [expand_word nk w])). length x = 4)"
    using Suc.prems n by (intro Suc.IH) auto
  then show ?case by simp
qed

lemma round_keys_props:
  "\<forall>x \<in> set ws. length x = 4 \<Longrightarrow>
     length (round_keys ws) = length ws div 4 \<and> (\<forall>k \<in> set (round_keys ws). length k = 16)"
  by (induction ws rule: round_keys.induct) simp_all

lemma aes_key_expansion_props:
  assumes "length ky = 16 \<or> length ky = 24 \<or> length ky = 32"
  shows "aes_key_expansion ky \<noteq> []" and "\<forall>k \<in> set (aes_key_expansion ky). length k = 16"
proof -
  define nk where "nk = length ky div 4"
  define n where "n = 4 * (nk + 7) - nk"
  have nk: "0 < nk" "length ky mod 4 = 0" using assms by (auto simp: nk_def)
  have kw: "length (key_words ky) = nk" "\<forall>w \<in> set (key_words ky). length w = 4"
    using key_words_props [OF nk(2)] by (simp_all add: nk_def)
  have ex: "length (expand_loop n nk (key_words ky)) = nk + n"
     "\<forall>x \<in> set (expand_loop n nk (key_words ky)). length x = 4"
    using expand_loop_props [of nk "key_words ky" n] nk(1) kw by simp_all
  have e: "aes_key_expansion ky = round_keys (expand_loop n nk (key_words ky))"
    by (simp add: aes_key_expansion_def Let_def nk_def n_def)
  have "length (aes_key_expansion ky) = (nk + n) div 4"
    using round_keys_props [OF ex(2)] ex(1) e by simp
  moreover have "nk + n = 4 * (nk + 7)" by (simp add: n_def)
  ultimately have "length (aes_key_expansion ky) = nk + 7" by simp
  then show "aes_key_expansion ky \<noteq> []" by auto
  show "\<forall>k \<in> set (aes_key_expansion ky). length k = 16"
    using round_keys_props [OF ex(2)] e by simp
qed

section \<open>CBC decryption inverts CBC encryption\<close>

lemma length_cbc_encrypt:
  "rks \<noteq> [] \<Longrightarrow> \<forall>k \<in> set rks. length k = 16 \<Longrightarrow> length iv = 16 \<Longrightarrow>
   length src mod 16 = 0 \<Longrightarrow> length (cbc_encrypt rks iv src) = length src"
proof (induction rks iv src rule: cbc_encrypt.induct)
  case (1 rks iv src)
  show ?case
  proof (cases "length src < 16")
    case True
    with "1.prems" have "src = []" by auto
    then show ?thesis by (subst cbc_encrypt.simps) simp
  next
    case False
    define c where "c = aes_encrypt_block rks (xor_bytes (take 16 src) iv)"
    have lb: "length (xor_bytes (take 16 src) iv) = 16"
      using False "1.prems" by (simp add: length_xor_bytes)
    have lc: "length c = 16"
      unfolding c_def using "1.prems"(1,2) lb by (rule length_aes_encrypt_block)
    have m: "length (drop 16 src) mod 16 = 0"
    proof -
      have "(length src - 16) mod 16 = 0"
        using "1.prems"(4) False by presburger
      then show ?thesis by simp
    qed
    have "length (cbc_encrypt rks c (drop 16 src)) = length (drop 16 src)"
      using "1.IH" [OF False c_def "1.prems"(1,2) lc m] .
    moreover have "cbc_encrypt rks iv src = c @ cbc_encrypt rks c (drop 16 src)"
      using False by (subst cbc_encrypt.simps) (simp add: c_def Let_def)
    ultimately show ?thesis using lc False by simp
  qed
qed

lemma cbc_decrypt_encrypt:
  "rks \<noteq> [] \<Longrightarrow> \<forall>k \<in> set rks. length k = 16 \<Longrightarrow> length iv = 16 \<Longrightarrow>
   length src mod 16 = 0 \<Longrightarrow> cbc_decrypt rks iv (cbc_encrypt rks iv src) = src"
proof (induction rks iv src rule: cbc_encrypt.induct)
  case (1 rks iv src)
  show ?case
  proof (cases "length src < 16")
    case True
    with "1.prems" have "src = []" by auto
    then have "cbc_encrypt rks iv src = []" by (subst cbc_encrypt.simps) simp
    then show ?thesis using \<open>src = []\<close> by (subst cbc_decrypt.simps) simp
  next
    case False
    define b where "b = xor_bytes (take 16 src) iv"
    define c where "c = aes_encrypt_block rks b"
    have lb: "length b = 16"
      unfolding b_def using False "1.prems" by (simp add: length_xor_bytes)
    have lc: "length c = 16"
      unfolding c_def using "1.prems"(1,2) lb by (rule length_aes_encrypt_block)
    have m: "length (drop 16 src) mod 16 = 0"
    proof -
      have "(length src - 16) mod 16 = 0"
        using "1.prems"(4) False by presburger
      then show ?thesis by simp
    qed
    have c': "c = aes_encrypt_block rks (xor_bytes (take 16 src) iv)"
      by (simp add: c_def b_def)
    have ih: "cbc_decrypt rks c (cbc_encrypt rks c (drop 16 src)) = drop 16 src"
      using "1.IH" [OF False c' "1.prems"(1,2) lc m] .
    have e: "cbc_encrypt rks iv src = c @ cbc_encrypt rks c (drop 16 src)"
      using False by (subst cbc_encrypt.simps) (simp add: c_def b_def Let_def)
    have d: "aes_decrypt_block rks c = b"
      unfolding c_def using "1.prems"(1,2) lb by (rule aes_decrypt_encrypt_block)
    have x: "xor_bytes b iv = take 16 src"
      unfolding b_def using False "1.prems" by (intro xor_bytes_cancel) simp
    have "cbc_decrypt rks iv (c @ cbc_encrypt rks c (drop 16 src))
        = xor_bytes (aes_decrypt_block rks c) iv @ cbc_decrypt rks c (cbc_encrypt rks c (drop 16 src))"
      using lc by (subst cbc_decrypt.simps) (simp add: Let_def)
    then show ?thesis by (simp add: e d x ih)
  qed
qed

section \<open>Properties of the padding\<close>

lemma unpad_loop_iff:
  "unpad_loop data len padding i \<longleftrightarrow>
     (\<forall>j. i \<le> j \<and> j < padding \<longrightarrow> data ! (len - 1 - j) = of_nat padding)"
proof (induction data len padding i rule: unpad_loop.induct)
  case (1 data len padding i)
  show ?case
  proof (cases "i < padding")
    case False
    then have "unpad_loop data len padding i" by (subst unpad_loop.simps) simp
    moreover have "\<forall>j. i \<le> j \<and> j < padding \<longrightarrow> data ! (len - 1 - j) = of_nat padding"
      using False by auto
    ultimately show ?thesis by blast
  next
    case True
    show ?thesis
    proof (cases "data ! (len - 1 - i) = of_nat padding")
      case False
      with True have "\<not> unpad_loop data len padding i"
        by (subst unpad_loop.simps) simp
      moreover have "\<not> (\<forall>j. i \<le> j \<and> j < padding \<longrightarrow> data ! (len - 1 - j) = of_nat padding)"
        using True False by blast
      ultimately show ?thesis by blast
    next
      case eq: True
      have a: "unpad_loop data len padding i = unpad_loop data len padding (i + 1)"
        using True eq by (subst unpad_loop.simps) simp
      have b: "unpad_loop data len padding (i + 1) \<longleftrightarrow>
          (\<forall>j. i + 1 \<le> j \<and> j < padding \<longrightarrow> data ! (len - 1 - j) = of_nat padding)"
        using "1.IH" True eq by simp
      have c: "(\<forall>j. i + 1 \<le> j \<and> j < padding \<longrightarrow> data ! (len - 1 - j) = of_nat padding) \<longleftrightarrow>
          (\<forall>j. i \<le> j \<and> j < padding \<longrightarrow> data ! (len - 1 - j) = of_nat padding)"
      proof
        assume h: "\<forall>j. i + 1 \<le> j \<and> j < padding \<longrightarrow> data ! (len - 1 - j) = of_nat padding"
        show "\<forall>j. i \<le> j \<and> j < padding \<longrightarrow> data ! (len - 1 - j) = of_nat padding"
        proof (intro allI impI)
          fix j assume j: "i \<le> j \<and> j < padding"
          show "data ! (len - 1 - j) = of_nat padding"
          proof (cases "j = i")
            case True then show ?thesis using eq by simp
          next
            case False
            then have "i + 1 \<le> j" using j by simp
            then show ?thesis using h j by blast
          qed
        qed
      next
        assume h: "\<forall>j. i \<le> j \<and> j < padding \<longrightarrow> data ! (len - 1 - j) = of_nat padding"
        show "\<forall>j. i + 1 \<le> j \<and> j < padding \<longrightarrow> data ! (len - 1 - j) = of_nat padding"
          using h by simp
      qed
      show ?thesis using a b c by simp
    qed
  qed
qed

lemma ex_less_3: "(\<exists>j<3::nat. P j) \<longleftrightarrow> P 0 \<or> P 1 \<or> P 2"
proof -
  have "\<And>j::nat. j < 3 \<longleftrightarrow> j = 0 \<or> j = 1 \<or> j = 2" by auto
  then show ?thesis by auto
qed

lemma pkcs7Unpad_cases:
  assumes "data \<noteq> []" and "p = unat (last data)"
  shows "pkcs7Unpad data =
     (if p = 0 \<or> length data < p \<or>
         (\<exists>j < p. data ! (length data - 1 - j) \<noteq> last data)
      then Inl InvalidPadding
      else Inr (take (length data - p) data))"
proof -
  have l: "unat (data ! (length data - Suc 0)) = p"
    using assms by (simp add: last_conv_nth)
  have w: "(of_nat p :: byte) = last data"
    using assms(2) by simp
  have loop: "unpad_loop data (length data) p 0 \<longleftrightarrow>
       \<not> (\<exists>j < p. data ! (length data - 1 - j) \<noteq> last data)"
    by (simp add: unpad_loop_iff w)
  show ?thesis
    using assms(1) loop
    by (simp add: pkcs7Unpad_def Let_def l)
qed


lemma pkcs7Pad_16:
  obtains n where "pkcs7Pad p 16 = p @ replicate n (of_nat n)" "0 < n" "n \<le> 16"
    "(length p + n) mod 16 = 0"
proof
  let ?n = "16 - length p mod 16"
  show "pkcs7Pad p 16 = p @ replicate ?n (of_nat ?n)" by (simp add: pkcs7Pad_def Let_def)
  show "0 < ?n" by simp
  show "?n \<le> 16" by simp
  show "(length p + ?n) mod 16 = 0" by presburger
qed

lemma length_pkcs7Pad:
  "length (pkcs7Pad p 16) mod 16 = 0" "0 < length (pkcs7Pad p 16)"
proof -
  obtain n where n: "pkcs7Pad p 16 = p @ replicate n (of_nat n)" "0 < n" "n \<le> 16"
    "(length p + n) mod 16 = 0" by (rule pkcs7Pad_16)
  show "length (pkcs7Pad p 16) mod 16 = 0" using n by simp
  show "0 < length (pkcs7Pad p 16)" using n by simp
qed

lemma pkcs7Unpad_pkcs7Pad: "pkcs7Unpad (pkcs7Pad p 16) = Inr p"
proof -
  obtain n where n: "pkcs7Pad p 16 = p @ replicate n (of_nat n)" "0 < n" "n \<le> 16"
    "(length p + n) mod 16 = 0" by (rule pkcs7Pad_16)
  let ?d = "p @ replicate n (of_nat n :: byte)"
  have u: "unat (of_nat n :: byte) = n"
    using n(3) by (simp add: unat_of_nat)
  have idx: "?d ! (length p + k) = of_nat n" if "k < n" for k
    using that by (simp only: nth_append_length_plus nth_replicate)
  have "length ?d - 1 = length p + (n - 1)" using n(2) by simp
  then have l: "?d ! (length ?d - 1) = of_nat n"
    using idx [of "n - 1"] n(2) by simp
  have loop: "unpad_loop ?d (length ?d) n 0"
    unfolding unpad_loop_iff
  proof (intro allI impI)
    fix j assume j: "0 \<le> j \<and> j < n"
    then have "length ?d - 1 - j = length p + (n - 1 - j)" by simp
    then show "?d ! (length ?d - 1 - j) = of_nat n"
      using idx [of "n - 1 - j"] j by simp
  qed
  show ?thesis
    unfolding n(1) pkcs7Unpad_def Let_def l u
    using n(2) loop by simp
qed

section \<open>The sequence number in the IV\<close>

lemma uint32_be_be32: "uint32_be_bytes (be32 w) = w"
proof (rule bit_word_eqI)
  fix n assume n: "n < LENGTH(32)"
  consider "n < 8" | "8 \<le> n" "n < 16" | "16 \<le> n" "n < 24" | "24 \<le> n" by linarith
  then show "bit (uint32_be_bytes (be32 w)) n = bit w n"
  proof cases
    case 1
    then show ?thesis
      by (simp add: uint32_be_bytes_def uint32_be_def be32_def bit_simps)
  next
    case 2
    then show ?thesis
      by (auto simp: uint32_be_bytes_def uint32_be_def be32_def bit_simps)
  next
    case 3
    then show ?thesis
      by (auto simp: uint32_be_bytes_def uint32_be_def be32_def bit_simps)
  next
    case 4
    then show ?thesis using n
      by (auto simp: uint32_be_bytes_def uint32_be_def be32_def bit_simps)
  qed
qed

lemma length_klap_iv: "length (klap_iv ivs sq) = 16"
  by (auto simp: klap_iv_def min_def)

lemma klap_iv_seq: "drop 12 (klap_iv ivs sq) = be32 sq"
  by (auto simp: klap_iv_def min_def)

lemma klap_iv_prefix: "length ivs = 12 \<Longrightarrow> take 12 (klap_iv ivs sq) = ivs"
  by (simp add: klap_iv_def)

lemma be32_uint32_be: "be32 (uint32_be b0 b1 b2 b3) = [b0, b1, b2, b3]"
proof -
  have "ucast (drop_bit 24 (uint32_be b0 b1 b2 b3)) = b0"
    by (rule bit_word_eqI) (auto simp: uint32_be_def bit_simps dest: bit_imp_le_length)
  moreover have "ucast (drop_bit 16 (uint32_be b0 b1 b2 b3)) = b1"
    by (rule bit_word_eqI) (auto simp: uint32_be_def bit_simps dest: bit_imp_le_length)
  moreover have "ucast (drop_bit 8 (uint32_be b0 b1 b2 b3)) = b2"
    by (rule bit_word_eqI) (auto simp: uint32_be_def bit_simps dest: bit_imp_le_length)
  moreover have "ucast (uint32_be b0 b1 b2 b3) = b3"
    by (rule bit_word_eqI) (auto simp: uint32_be_def bit_simps dest: bit_imp_le_length)
  ultimately show ?thesis by (simp add: be32_def)
qed

lemma list4:
  assumes "length (bs :: 'a list) = 4"
  shows "bs = [bs ! 0, bs ! 1, bs ! 2, bs ! 3]"
  using assms by (auto simp: numeral_eq_Suc length_Suc_conv)

lemma be32_uint32_be_bytes: "length bs = 4 \<Longrightarrow> be32 (uint32_be_bytes bs) = bs"
  using list4 [of bs] by (simp add: uint32_be_bytes_def be32_uint32_be)

section \<open>What encrypt produces and decrypt accepts\<close>

lemma aes_NewCipher_valid:
  "length k = 16 \<or> length k = 24 \<or> length k = 32 \<Longrightarrow> aes_NewCipher k = Inr (aes_key_expansion k)"
  by (simp add: aes_NewCipher_def)

lemma encrypt_valid_key:
  fixes s :: klapSession and p :: bytes
  assumes k: "length (key s) = 16 \<or> length (key s) = 24 \<or> length (key s) = 32"
  defines "sq \<equiv> seq s + 1"
  defines "ct \<equiv> cbc_encrypt (aes_key_expansion (key s)) (klap_iv (ivSeq s) sq) (pkcs7Pad p 16)"
  shows "encrypt s p = (Inr (sha256 (sig s @ be32 sq @ ct) @ ct, sq), s\<lparr>seq := sq\<rparr>)"
    and "length ct = length (pkcs7Pad p 16)"
proof -
  show "encrypt s p = (Inr (sha256 (sig s @ be32 sq @ ct) @ ct, sq), s\<lparr>seq := sq\<rparr>)"
    using k
    by (simp add: encrypt_def Let_def aes_NewCipher_def CryptBlocks_encrypt_def
        length_pkcs7Pad sq_def ct_def)
  show "length ct = length (pkcs7Pad p 16)"
    unfolding ct_def using aes_key_expansion_props [OF k]
    by (intro length_cbc_encrypt) (simp_all add: length_klap_iv length_pkcs7Pad)
qed

lemma decrypt_encrypted:
  fixes s :: klapSession and p :: bytes and sq :: "32 word"
  assumes k: "length (key s) = 16 \<or> length (key s) = 24 \<or> length (key s) = 32"
  defines "ct \<equiv> cbc_encrypt (aes_key_expansion (key s)) (klap_iv (ivSeq s) sq) (pkcs7Pad p 16)"
  shows "decrypt s (sha256 (sig s @ be32 sq @ ct) @ ct) sq = Inr p"
proof -
  have l: "length ct = length (pkcs7Pad p 16)"
    unfolding ct_def using aes_key_expansion_props [OF k]
    by (intro length_cbc_encrypt) (simp_all add: length_klap_iv length_pkcs7Pad)
  have d: "cbc_decrypt (aes_key_expansion (key s)) (klap_iv (ivSeq s) sq) ct = pkcs7Pad p 16"
    unfolding ct_def using aes_key_expansion_props [OF k]
    by (intro cbc_decrypt_encrypt) (simp_all add: length_klap_iv length_pkcs7Pad)
  show ?thesis
    using k
    by (simp add: decrypt_def Let_def aes_NewCipher_def CryptBlocks_decrypt_def l
        length_pkcs7Pad d pkcs7Unpad_pkcs7Pad)
qed

section \<open>Key derivation\<close>

lemma concat_bytes3 [simp]: "concat_bytes [a, b, c] = a @ b @ c"
  by (simp add: concat_bytes_def)

lemma sha256Hash2 [simp]: "sha256Hash [a, b] = sha256 (a @ b)"
  by (simp add: sha256Hash_def)

lemma deriveKeys_fields:
  "key (deriveKeys s) = take 16 (sha256 (bytes_of ''lsk'' @ localSeed s @ remoteSeed s @ authHash s))"
  "ivSeq (deriveKeys s) = take 12 (sha256 (bytes_of ''iv'' @ localSeed s @ remoteSeed s @ authHash s))"
  "sig (deriveKeys s) = take 28 (sha256 (bytes_of ''ldk'' @ localSeed s @ remoteSeed s @ authHash s))"
  "seq (deriveKeys s) =
     uint32_be_bytes (take 4 (drop 28 (sha256 (bytes_of ''iv'' @ localSeed s @ remoteSeed s @ authHash s))))"
  "localSeed (deriveKeys s) = localSeed s"
  "remoteSeed (deriveKeys s) = remoteSeed s"
  "authHash (deriveKeys s) = authHash s"
  "baseURL (deriveKeys s) = baseURL s"
  "host (deriveKeys s) = host s"
  by (simp_all add: deriveKeys_def Let_def klapIVSize_def)

lemma length_deriveKeys:
  "length (key (deriveKeys s)) = 16"
  "length (ivSeq (deriveKeys s)) = 12"
  "length (sig (deriveKeys s)) = 28"
  by (simp_all add: deriveKeys_fields)

section \<open>C6: what pkcs7Unpad rejects\<close>

text \<open>
  C6, as the code has it. \<^verbatim>\<open>pkcs7Unpad\<close> compares the final byte \<open>p\<close> with the length of
  the data, not with the block size 16: a non-empty byte string is rejected exactly when
  \<open>p\<close> is 0, \<open>p\<close> is greater than the length of the string, or the final \<open>p\<close> bytes are
  not all equal to \<open>p\<close>; otherwise the string without its final \<open>p\<close> bytes is returned.
  In particular this holds for every string whose length is a positive multiple of 16.
\<close>

theorem pkcs7Unpad_rejects_iff:
  assumes "data \<noteq> []" and "p = unat (last data)"
  shows "pkcs7Unpad data =
     (if p = 0 \<or> length data < p \<or>
         (\<exists>j < p. data ! (length data - 1 - j) \<noteq> last data)
      then Inl InvalidPadding
      else Inr (take (length data - p) data))"
  using assms by (rule pkcs7Unpad_cases)

theorem pkcs7Unpad_rejects_iff_witness:
  "pkcs7Unpad (replicate 15 0 @ [17 :: byte]) = Inl InvalidPadding
   \<and> pkcs7Unpad (replicate 13 7 @ [3, 3, 3 :: byte]) = Inr (replicate 13 7)"
proof -
  have a: "pkcs7Unpad (replicate 15 0 @ [17 :: byte]) = Inl InvalidPadding"
    using pkcs7Unpad_rejects_iff [of "replicate 15 0 @ [17 :: byte]" 17] by simp
  have "\<not> (\<exists>j<3::nat. (replicate 13 7 @ [3, 3, 3 :: byte]) ! (15 - j) \<noteq> 3)"
    by (simp add: ex_less_3 nth_append)
  then have b: "pkcs7Unpad (replicate 13 7 @ [3, 3, 3 :: byte]) = Inr (replicate 13 7)"
    using pkcs7Unpad_rejects_iff [of "replicate 13 7 @ [3, 3, 3 :: byte]" 3] by simp
  from a b show ?thesis by simp
qed

text \<open>
  C6 as the specification states it fails: the 32 bytes \<^verbatim>\<open>0x20\<close> have a length that is a
  multiple of 16 and a final byte 32 > 16, and \<^verbatim>\<open>pkcs7Unpad\<close> accepts them, returning the
  empty string.
\<close>

theorem pkcs7Unpad_accepts_byte_above_16:
  "length (replicate 32 (32 :: byte)) mod 16 = 0
   \<and> unat (last (replicate 32 (32 :: byte))) > 16
   \<and> pkcs7Unpad (replicate 32 32) = Inr []"
proof -
  have "unpad_loop (replicate 32 (32 :: byte)) 32 32 0"
    by (simp add: unpad_loop_iff)
  then show ?thesis
    by (simp add: pkcs7Unpad_def Let_def)
qed

section \<open>C1: credential and key derivation\<close>

text \<open>
  C1. \<^verbatim>\<open>generateAuthHash\<close> is SHA256(SHA1(username) || SHA1(password)), and with
  H = local_seed || remote_seed || auth_hash, \<^verbatim>\<open>deriveKeys\<close> sets key to the first 16
  bytes of SHA256("lsk" || H), the IV seed to the first 12 bytes of SHA256("iv" || H),
  the signature key to the first 28 bytes of SHA256("ldk" || H) and the sequence number
  to the 32-bit word whose big-endian bytes are bytes 28..32 of SHA256("iv" || H), which
  \<open>sint\<close> reads as a signed integer; the three keys have 16, 12 and 28 bytes. Both are
  functions of their arguments alone.
\<close>

theorem key_derivation_formulas:
  "generateAuthHash username password
     = sha256 (sha1 (bytes_of username) @ sha1 (bytes_of password))
   \<and> (let H = localSeed s @ remoteSeed s @ authHash s;
           iv = sha256 (bytes_of ''iv'' @ H);
           s' = deriveKeys s
       in key s' = take 16 (sha256 (bytes_of ''lsk'' @ H)) \<and> length (key s') = 16
        \<and> ivSeq s' = take 12 iv \<and> length (ivSeq s') = 12
        \<and> sig s' = take 28 (sha256 (bytes_of ''ldk'' @ H)) \<and> length (sig s') = 28
        \<and> seq s' = uint32_be (iv ! 28) (iv ! 29) (iv ! 30) (iv ! 31)
        \<and> - (2 ^ 31) \<le> sint (seq s') \<and> sint (seq s') < 2 ^ 31
        \<and> be32 (seq s') = drop 28 iv)"
proof -
  let ?H = "localSeed s @ remoteSeed s @ authHash s"
  let ?iv = "sha256 (bytes_of ''iv'' @ ?H)"
  have a: "generateAuthHash username password
     = sha256 (sha1 (bytes_of username) @ sha1 (bytes_of password))"
    by (simp add: generateAuthHash_def Let_def)
  have q: "seq (deriveKeys s) = uint32_be (?iv ! 28) (?iv ! 29) (?iv ! 30) (?iv ! 31)"
    by (simp add: deriveKeys_fields uint32_be_bytes_def)
  have r1: "- (2 ^ 31) \<le> sint (seq (deriveKeys s))"
    using sint_ge [of "seq (deriveKeys s)"] by simp
  have r2: "sint (seq (deriveKeys s)) < 2 ^ 31"
    using sint_lt [of "seq (deriveKeys s)"] by simp
  have b: "be32 (seq (deriveKeys s)) = drop 28 ?iv"
    by (simp add: deriveKeys_fields be32_uint32_be_bytes)
  show ?thesis
    unfolding Let_def
    using a q r1 r2 b by (simp add: deriveKeys_fields length_deriveKeys)
qed

theorem key_derivation_formulas_witness:
  "generateAuthHash ''user@example.com'' ''secret''
     = sha256 (sha1 (bytes_of ''user@example.com'') @ sha1 (bytes_of ''secret''))
   \<and> length (key (deriveKeys \<lparr>localSeed = replicate 16 0, remoteSeed = replicate 16 255,
          authHash = generateAuthHash ''user@example.com'' ''secret'', key = [], ivSeq = [],
          sig = [], seq = 0, baseURL = ''http://192.0.2.10/app'', host = ''192.0.2.10''\<rparr>)) = 16"
  using key_derivation_formulas [of "''user@example.com''" "''secret''"
      "\<lparr>localSeed = replicate 16 0, remoteSeed = replicate 16 255,
          authHash = generateAuthHash ''user@example.com'' ''secret'', key = [], ivSeq = [],
          sig = [], seq = 0, baseURL = ''http://192.0.2.10/app'', host = ''192.0.2.10''\<rparr>"]
  unfolding Let_def by blast

section \<open>C4: decrypt inverts encrypt\<close>

text \<open>
  C4. For a session with a derived key (16 bytes) and any plaintext, \<^verbatim>\<open>encrypt\<close> returns
  a payload and the sequence number it used, and \<^verbatim>\<open>decrypt\<close> of that payload with that
  sequence number, on the session as \<^verbatim>\<open>encrypt\<close> left it, returns the plaintext.
\<close>

theorem decrypt_encrypt_roundtrip:
  assumes "length (key s) = 16"
  shows "\<exists>payload sq s'. encrypt s p = (Inr (payload, sq), s')
           \<and> sq = seq s' \<and> decrypt s' payload sq = Inr p"
proof -
  define sq where "sq = seq s + 1"
  define ct where
    "ct = cbc_encrypt (aes_key_expansion (key s)) (klap_iv (ivSeq s) sq) (pkcs7Pad p 16)"
  define s' where "s' = s\<lparr>seq := sq\<rparr>"
  have e: "encrypt s p = (Inr (sha256 (sig s @ be32 sq @ ct) @ ct, sq), s')"
    using encrypt_valid_key(1) [of s p] assms by (simp add: sq_def ct_def s'_def)
  have "decrypt s' (sha256 (sig s' @ be32 sq @
          cbc_encrypt (aes_key_expansion (key s')) (klap_iv (ivSeq s') sq) (pkcs7Pad p 16))
          @ cbc_encrypt (aes_key_expansion (key s')) (klap_iv (ivSeq s') sq) (pkcs7Pad p 16)) sq
        = Inr p"
    using assms by (intro decrypt_encrypted) (simp add: s'_def)
  then have "decrypt s' (sha256 (sig s @ be32 sq @ ct) @ ct) sq = Inr p"
    by (simp add: s'_def ct_def)
  moreover have "sq = seq s'" by (simp add: s'_def)
  ultimately show ?thesis using e by blast
qed

theorem decrypt_encrypt_roundtrip_witness:
  "length (key (deriveKeys \<lparr>localSeed = replicate 16 1, remoteSeed = replicate 16 2,
            authHash = generateAuthHash ''a@b'' ''pw'', key = [], ivSeq = [], sig = [], seq = 0,
            baseURL = ''http://192.0.2.10/app'', host = ''192.0.2.10''\<rparr>)) = 16
   \<and> (\<exists>payload sq s'.
         encrypt (deriveKeys \<lparr>localSeed = replicate 16 1, remoteSeed = replicate 16 2,
            authHash = generateAuthHash ''a@b'' ''pw'', key = [], ivSeq = [], sig = [], seq = 0,
            baseURL = ''http://192.0.2.10/app'', host = ''192.0.2.10''\<rparr>)
           (bytes_of ''{\"method\":\"get_current_power\"}'') = (Inr (payload, sq), s')
         \<and> sq = seq s'
         \<and> decrypt s' payload sq = Inr (bytes_of ''{\"method\":\"get_current_power\"}''))"
proof -
  let ?s = "deriveKeys \<lparr>localSeed = replicate 16 1, remoteSeed = replicate 16 2,
            authHash = generateAuthHash ''a@b'' ''pw'', key = [], ivSeq = [], sig = [], seq = 0,
            baseURL = ''http://192.0.2.10/app'', host = ''192.0.2.10''\<rparr>"
  have k: "length (key ?s) = 16" by (rule length_deriveKeys)
  from k decrypt_encrypt_roundtrip [OF k, of "bytes_of ''{\"method\":\"get_current_power\"}''"]
  show ?thesis by blast
qed

section \<open>C10: encrypt cannot fail on a derived key\<close>



end
